theory Spec2Isabelle
  imports Main "HOL-Library.Word"
begin

unbundle bit_operations_syntax

section \<open>The encoding classifier of \<open>encoding.c\<close>\<close>

text \<open>
  \<open>checkEncoding\<close> reads a file byte by byte with \<open>fgetc\<close>, keeps four \<open>int\<close>
  variables and prints one of four lines at the end of the file.  The file is a list of
  bytes (\<open>8 word\<close>); \<open>fgetc\<close> yields each byte as an \<open>unsigned char\<close> converted to
  \<open>int\<close>, which is \<open>uint\<close>.  The variable \<open>a\<close> and the counter \<open>utf8Length\<close> are C
  \<open>int\<close>s whose values stay far inside the \<open>int\<close> range (\<open>a\<close> is masked to 8 bits, the
  counter is shown below to stay within \<open>0..3\<close>), so both are modelled as \<open>int\<close>.  The
  three variables that only ever hold \<open>0\<close> or \<open>1\<close> and are only tested for truth are
  \<open>bool\<close>.
\<close>

subsection \<open>The bit templates (lines 4--18)\<close>

definition mask_UTF8trailer :: int where "mask_UTF8trailer = 0xc0"
definition bits_UTF8trailer :: int where "bits_UTF8trailer = 0x80"

definition mask_UTF8leader1 :: int where "mask_UTF8leader1 = 0xe0"
definition bits_UTF8leader1 :: int where "bits_UTF8leader1 = 0xc0"

definition mask_UTF8leader2 :: int where "mask_UTF8leader2 = 0xef"
definition bits_UTF8leader2 :: int where "bits_UTF8leader2 = 0xe0"

definition mask_UTF8leader3 :: int where "mask_UTF8leader3 = 0xf8"
definition bits_UTF8leader3 :: int where "bits_UTF8leader3 = 0xf0"

subsection \<open>The local variables of \<open>checkEncoding\<close> (lines 23--26)\<close>

record state =
  utf8Length :: int
  validLatin1 :: bool
  validUTF8 :: bool
  nonASCII :: bool

definition init :: state where
  "init = \<lparr>utf8Length = 0, validLatin1 = True, validUTF8 = True, nonASCII = False\<rparr>"

subsection \<open>The body of the \<open>while\<close> loop (lines 30--50)\<close>

text \<open>The argument \<open>a0\<close> is the value \<open>fgetc\<close> returned, which is not \<open>EOF\<close>.\<close>

definition loop_body :: "state \<Rightarrow> int \<Rightarrow> state" where
  "loop_body s a0 =
    (let a = a0 AND 0xff in
     if (a AND 0x80) = 0 then
       (if utf8Length s \<noteq> 0 then s\<lparr>validUTF8 := False, utf8Length := 0\<rparr> else s)
     else
       (let s1 = s\<lparr>nonASCII := True\<rparr>;
            s2 = (if a < 0xa0 then s1\<lparr>validLatin1 := False\<rparr> else s1)
        in
        if (a AND mask_UTF8trailer) = bits_UTF8trailer then
          (if utf8Length s2 = 0 then s2\<lparr>validUTF8 := False\<rparr>
           else s2\<lparr>utf8Length := utf8Length s2 - 1\<rparr>)
        else if (a AND mask_UTF8leader1) = bits_UTF8leader1 then
          (if utf8Length s2 \<noteq> 0 then s2\<lparr>validUTF8 := False\<rparr>
           else s2\<lparr>utf8Length := 1\<rparr>)
        else if (a AND mask_UTF8leader2) = bits_UTF8leader2 then
          (if utf8Length s2 \<noteq> 0 then s2\<lparr>validUTF8 := False\<rparr>
           else s2\<lparr>utf8Length := 2\<rparr>)
        else if (a AND mask_UTF8leader3) = bits_UTF8leader3 then
          (if utf8Length s2 \<noteq> 0 then s2\<lparr>validUTF8 := False\<rparr>
           else s2\<lparr>utf8Length := 3\<rparr>)
        else s2\<lparr>validUTF8 := False\<rparr>))"

subsection \<open>The loop (line 29) and the end of the file (lines 52--58)\<close>

text \<open>
  \<open>scan s file\<close> runs the loop from the variables \<open>s\<close> on the rest of the file: on the
  empty rest \<open>fgetc\<close> returns \<open>EOF\<close> and the loop ends, otherwise it returns the next
  byte and the body runs.
\<close>

fun scan :: "state \<Rightarrow> 8 word list \<Rightarrow> state" where
  "scan s [] = s"
| "scan s (c # cs) = scan (loop_body s (uint c)) cs"

text \<open>The line that is printed.\<close>

datatype verdict = ASCII | UTF8 | Latin1 | Unknown

definition resolve :: "state \<Rightarrow> verdict" where
  "resolve s =
    (if \<not> nonASCII s then ASCII
     else if validUTF8 s then UTF8
     else if validLatin1 s then Latin1
     else Unknown)"

definition checkEncoding :: "8 word list \<Rightarrow> verdict" where
  "checkEncoding file = resolve (scan init file)"

subsection \<open>Auxiliary notions used in the statements\<close>

text \<open>
  The state predicate behind the observation that nothing has happened to the other
  variables as long as no byte with the high bit has been read.
\<close>

definition pure_ascii :: "state \<Rightarrow> bool" where
  "pure_ascii s = (nonASCII s \<or> (validUTF8 s \<and> validLatin1 s \<and> utf8Length s = 0))"

text \<open>
  Well-formed UTF-8 in the words of the specification, not of the code: an ASCII byte
  stands alone, a leader \<open>110xxxxx\<close>, \<open>1110xxxx\<close> or \<open>11110xxx\<close> is followed by exactly
  one, two or three continuation bytes \<open>10xxxxxx\<close>, and nothing dangles at the end.
\<close>

definition spec_continuation :: "8 word \<Rightarrow> bool" where
  "spec_continuation b = (0x80 \<le> b \<and> b \<le> 0xBF)"

fun spec_wellformed_utf8 :: "8 word list \<Rightarrow> bool" where
  "spec_wellformed_utf8 [] = True"
| "spec_wellformed_utf8 (b # bs) =
    (if b < 0x80 then spec_wellformed_utf8 bs
     else if 0xC0 \<le> b \<and> b \<le> 0xDF then
       (case bs of
          c1 # r \<Rightarrow> spec_continuation c1 \<and> spec_wellformed_utf8 r
        | _ \<Rightarrow> False)
     else if 0xE0 \<le> b \<and> b \<le> 0xEF then
       (case bs of
          c1 # c2 # r \<Rightarrow>
            spec_continuation c1 \<and> spec_continuation c2 \<and> spec_wellformed_utf8 r
        | _ \<Rightarrow> False)
     else if 0xF0 \<le> b \<and> b \<le> 0xF7 then
       (case bs of
          c1 # c2 # c3 # r \<Rightarrow>
            spec_continuation c1 \<and> spec_continuation c2 \<and> spec_continuation c3 \<and>
            spec_wellformed_utf8 r
        | _ \<Rightarrow> False)
     else False)"

text \<open>
  The shape of a multi-byte sequence in the words of the specification: the number of
  continuation bytes that a leader \<open>110xxxxx\<close>, \<open>1110xxxx\<close> or \<open>11110xxx\<close> requires
  (0 for a byte that is no leader), and the streams that end inside a sequence, which
  are those whose last leader is followed by continuation bytes only, and by fewer than
  it requires.
\<close>

definition spec_trailers :: "8 word \<Rightarrow> nat" where
  "spec_trailers b =
    (if 0xC0 \<le> b \<and> b \<le> 0xDF then 1
     else if 0xE0 \<le> b \<and> b \<le> 0xEF then 2
     else if 0xF0 \<le> b \<and> b \<le> 0xF7 then 3
     else 0)"

definition spec_inside_sequence :: "8 word list \<Rightarrow> bool" where
  "spec_inside_sequence p =
    (case dropWhile spec_continuation (rev p) of
       [] \<Rightarrow> False
     | l # _ \<Rightarrow> length (takeWhile spec_continuation (rev p)) < spec_trailers l)"

section \<open>Bytes and the bit templates\<close>

lemmas template_defs =
  mask_UTF8trailer_def bits_UTF8trailer_def mask_UTF8leader1_def bits_UTF8leader1_def
  mask_UTF8leader2_def bits_UTF8leader2_def mask_UTF8leader3_def bits_UTF8leader3_def

lemma unat_byte_less: "unat (b :: 8 word) < 256"
proof -
  have "unat b < 2 ^ LENGTH(8)" by (rule unsigned_less)
  then show ?thesis by simp
qed

text \<open>A property of all 256 values holds of the value of every byte.\<close>

lemma byte_all:
  assumes "\<forall>n\<in>set [0..<256]. P (int n)"
  shows "P (uint (b :: 8 word))"
proof -
  have "unat b \<in> set [0..<256]" using unat_byte_less [of b] by simp
  with assms have "P (int (unat b))" by blast
  then show ?thesis by simp
qed

lemma byte_mask_ff: "uint (b :: 8 word) AND 0xff = uint b"
  by (rule byte_all [where P = "\<lambda>a. a AND 0xff = a"]) code_simp

lemma byte_high_bit: "(uint (b :: 8 word) AND 0x80 = 0) = (uint b < 0x80)"
  by (rule byte_all [where P = "\<lambda>a. (a AND 0x80 = 0) = (a < 0x80)"]) code_simp

lemma byte_trailer:
  "(uint (b :: 8 word) AND 0xc0 = 0x80) = (0x80 \<le> uint b \<and> uint b < 0xc0)"
  by (rule byte_all [where P = "\<lambda>a. (a AND 0xc0 = 0x80) = (0x80 \<le> a \<and> a < 0xc0)"])
    code_simp

text \<open>
  The second leader template has the mask \<open>0xef\<close>: it leaves bit 4 out of the comparison
  and keeps the low four bits in, so it matches two bytes only.
\<close>

lemma byte_leader2:
  "(uint (b :: 8 word) AND mask_UTF8leader2 = bits_UTF8leader2) =
   (uint b = 0xe0 \<or> uint b = 0xf0)"
  unfolding template_defs
  by (rule byte_all [where P = "\<lambda>a. (a AND 0xef = 0xe0) = (a = 0xe0 \<or> a = 0xf0)"])
    code_simp

lemma byte_leader1:
  "(uint (b :: 8 word) AND mask_UTF8leader1 = bits_UTF8leader1) =
   (0xc0 \<le> uint b \<and> uint b < 0xe0)"
  unfolding template_defs
  by (rule byte_all [where P = "\<lambda>a. (a AND 0xe0 = 0xc0) = (0xc0 \<le> a \<and> a < 0xe0)"])
    code_simp

lemma byte_leader3:
  "(uint (b :: 8 word) AND mask_UTF8leader3 = bits_UTF8leader3) =
   (0xf0 \<le> uint b \<and> uint b < 0xf8)"
  unfolding template_defs
  by (rule byte_all [where P = "\<lambda>a. (a AND 0xf8 = 0xf0) = (0xf0 \<le> a \<and> a < 0xf8)"])
    code_simp

lemma byte_eq_F0: "((l :: 8 word) = 0xF0) = (uint l = 0xf0)"
  by (simp add: word_uint_eq_iff)

section \<open>The loop\<close>

lemma scan_append: "scan s (xs @ ys) = scan (scan s xs) ys"
  by (induction xs arbitrary: s) simp_all

subsection \<open>The flags only fall\<close>

lemma loop_body_validUTF8: "\<not> validUTF8 s \<Longrightarrow> \<not> validUTF8 (loop_body s a)"
  by (simp add: loop_body_def Let_def)

lemma loop_body_validLatin1: "\<not> validLatin1 s \<Longrightarrow> \<not> validLatin1 (loop_body s a)"
  by (simp add: loop_body_def Let_def)

lemma scan_validUTF8: "\<not> validUTF8 s \<Longrightarrow> \<not> validUTF8 (scan s cs)"
  by (induction cs arbitrary: s) (simp_all add: loop_body_validUTF8)

lemma scan_validLatin1: "\<not> validLatin1 s \<Longrightarrow> \<not> validLatin1 (scan s cs)"
  by (induction cs arbitrary: s) (simp_all add: loop_body_validLatin1)

lemma resolve_not_UTF8: "\<not> validUTF8 s \<Longrightarrow> resolve s \<noteq> UTF8"
  by (simp add: resolve_def)

subsection \<open>The counter\<close>

lemma loop_body_range:
  "0 \<le> utf8Length s \<and> utf8Length s \<le> 3 \<Longrightarrow>
   0 \<le> utf8Length (loop_body s a) \<and> utf8Length (loop_body s a) \<le> 3"
  by (simp add: loop_body_def Let_def)

lemma scan_range:
  "0 \<le> utf8Length s \<and> utf8Length s \<le> 3 \<Longrightarrow>
   0 \<le> utf8Length (scan s cs) \<and> utf8Length (scan s cs) \<le> 3"
proof (induction cs arbitrary: s)
  case Nil
  then show ?case by simp
next
  case (Cons c cs)
  from Cons.prems
  have "0 \<le> utf8Length (loop_body s (uint c)) \<and> utf8Length (loop_body s (uint c)) \<le> 3"
    by (rule loop_body_range)
  then show ?case using Cons.IH by simp
qed

lemma loop_body_ascii_resets:
  "b < 0x80 \<Longrightarrow> utf8Length (loop_body s (uint (b :: 8 word))) = 0"
  by (simp add: loop_body_def Let_def byte_mask_ff byte_high_bit word_less_def)

lemma loop_body_truncated:
  "utf8Length s \<noteq> 0 \<Longrightarrow> \<not> (0x80 \<le> b \<and> b \<le> 0xBF) \<Longrightarrow>
   \<not> validUTF8 (loop_body s (uint (b :: 8 word)))"
  by (auto simp add: loop_body_def Let_def template_defs byte_mask_ff byte_trailer
        word_le_def)

lemma scan_init_range:
  "0 \<le> utf8Length (scan init cs) \<and> utf8Length (scan init cs) \<le> 3"
  by (rule scan_range) (simp add: init_def)

text \<open>
  A leader read while the counter is 0 opens a sequence or, failing that, clears
  \<open>validUTF8\<close>; read while the counter is not 0 it clears \<open>validUTF8\<close>.  In both cases
  the flag is clear or the counter exceeds any number of continuation bytes that is too
  small for the leader, but for the leader \<open>0xF0\<close>, which the code gives two
  continuation bytes.
\<close>

lemma loop_body_leader:
  assumes "k < spec_trailers l" and "\<not> (l = 0xF0 \<and> k = 2)"
  shows "\<not> validUTF8 (loop_body s (uint l)) \<or> int k < utf8Length (loop_body s (uint l))"
proof (cases "utf8Length s = 0")
  case False
  have "\<not> (0x80 \<le> l \<and> l \<le> 0xBF)"
    using assms(1) by (auto simp add: spec_trailers_def word_le_def split: if_splits)
  with False have "\<not> validUTF8 (loop_body s (uint l))"
    by (rule loop_body_truncated)
  then show ?thesis by simp
next
  case True
  show ?thesis
    using assms True
    by (auto simp add: loop_body_def Let_def spec_trailers_def byte_mask_ff byte_high_bit
        byte_leader1 byte_leader2 byte_leader3 byte_eq_F0 word_le_def
        mask_UTF8trailer_def bits_UTF8trailer_def byte_trailer split: if_splits)
qed

lemma loop_body_continuation:
  "spec_continuation c \<Longrightarrow> utf8Length s \<noteq> 0 \<Longrightarrow>
   utf8Length (loop_body s (uint c)) = utf8Length s - 1"
  by (simp add: loop_body_def Let_def spec_continuation_def byte_mask_ff byte_high_bit
      mask_UTF8trailer_def bits_UTF8trailer_def byte_trailer word_le_def)

lemma scan_continuations:
  "list_all spec_continuation ks \<Longrightarrow> int (length ks) < utf8Length s \<Longrightarrow>
   utf8Length (scan s ks) = utf8Length s - int (length ks)"
proof (induction ks arbitrary: s)
  case Nil
  then show ?case by simp
next
  case (Cons c ks)
  from Cons.prems have c: "spec_continuation c" and n: "utf8Length s \<noteq> 0" by auto
  have l: "utf8Length (loop_body s (uint c)) = utf8Length s - 1"
    using c n by (rule loop_body_continuation)
  with Cons.prems have "int (length ks) < utf8Length (loop_body s (uint c))" by simp
  with Cons.prems have
    "utf8Length (scan (loop_body s (uint c)) ks) =
     utf8Length (loop_body s (uint c)) - int (length ks)"
    by (simp add: Cons.IH)
  with l show ?case by simp
qed

subsection \<open>Streams of ASCII bytes\<close>

lemma loop_body_ascii:
  "b < 0x80 \<Longrightarrow> \<not> nonASCII s \<Longrightarrow> utf8Length s = 0 \<Longrightarrow>
   loop_body s (uint (b :: 8 word)) = s"
  by (simp add: loop_body_def Let_def byte_mask_ff byte_high_bit word_less_def)

lemma scan_ascii:
  "\<forall>b\<in>set cs. b < 0x80 \<Longrightarrow> \<not> nonASCII s \<Longrightarrow> utf8Length s = 0 \<Longrightarrow> scan s cs = s"
  by (induction cs arbitrary: s) (simp_all add: loop_body_ascii)

lemma loop_body_pure: "pure_ascii s \<Longrightarrow> pure_ascii (loop_body s a)"
  by (auto simp add: loop_body_def Let_def pure_ascii_def)

lemma scan_pure: "pure_ascii s \<Longrightarrow> pure_ascii (scan s cs)"
  by (induction cs arbitrary: s) (simp_all add: loop_body_pure)

section \<open>The claims of the specification\<close>

text \<open>
  C1.  The specification has the end of the stream give \<open>UTF8\<close> only when \<open>validUTF8\<close>
  holds and no continuation byte is still awaited, so that the lone leader \<open>0xC3\<close> is
  \<open>Latin1\<close>.  The code rejects a sequence cut short by an ASCII byte (line 32) or by
  another leader (lines 40, 43, 46), but at the end of the file (line 55) it reads
  \<open>validUTF8\<close> alone: on the stream \<open>[0xC3]\<close> the counter is left at 1, the flag is
  still set, and \<open>UTF8\<close> is printed.
\<close>

theorem checkEncoding_dangling_leader:
  "utf8Length (scan init [0xC3]) = 1 \<and> validUTF8 (scan init [0xC3]) \<and>
   checkEncoding [0xC3] = UTF8"
  by code_simp

text \<open>
  C2.  The specification has every byte \<open>1110xxxx\<close> (\<open>0xE0\<close> to \<open>0xEF\<close>) read while the
  counter is 0 set the counter to 2 and leave \<open>validUTF8\<close> alone.  With the mask \<open>0xef\<close>
  of line 13 (the comment of line 12 says \<open>1110xxxx\<close>, whose mask is \<open>0xf0\<close>) the byte
  \<open>0xE2\<close> matches no template: the counter stays 0 and \<open>validUTF8\<close> is cleared.
\<close>

theorem loop_body_E2_no_leader:
  "uint (0xE2 :: 8 word) AND mask_UTF8leader2 \<noteq> bits_UTF8leader2 \<and>
   utf8Length (loop_body init (uint (0xE2 :: 8 word))) = 0 \<and>
   \<not> validUTF8 (loop_body init (uint (0xE2 :: 8 word)))"
  by code_simp

text \<open>
  C3.  The specification has every well-formed UTF-8 stream with a byte of \<open>0x80\<close> or
  more give \<open>UTF8\<close>.  The euro sign \<open>0xE2 0x82 0xAC\<close> is well formed, and the code prints
  \<open>Unknown\<close> for it: the leader \<open>0xE2\<close> is refused by the mask of line 13, as in C2.
\<close>

theorem checkEncoding_euro_sign:
  "spec_wellformed_utf8 [0xE2, 0x82, 0xAC] \<and>
   list_ex (\<lambda>b. 0x80 \<le> b) [0xE2, 0x82, 0xAC :: 8 word] \<and>
   checkEncoding [0xE2, 0x82, 0xAC] = Unknown"
  by code_simp

text \<open>
  C4.  The specification has every byte \<open>11110xxx\<close> (\<open>0xF0\<close> to \<open>0xF7\<close>) read while the
  counter is 0 set the counter to 3, and the four templates exclude each other.  The byte
  \<open>0xF0\<close> matches the second leader template of line 13 as well as the third of line 17;
  the second is tested first, and the counter becomes 2.
\<close>

theorem loop_body_F0_two_templates:
  "uint (0xF0 :: 8 word) AND mask_UTF8leader2 = bits_UTF8leader2 \<and>
   uint (0xF0 :: 8 word) AND mask_UTF8leader3 = bits_UTF8leader3 \<and>
   utf8Length (loop_body init (uint (0xF0 :: 8 word))) = 2"
  by code_simp

text \<open>
  C5, as the specification words it: a stream holding an overlong or a truncated sequence
  never gives \<open>UTF8\<close>.  The code compares no value with the length of its encoding, and
  the overlong encoding \<open>0xC0 0x80\<close> of the character 0 gives \<open>UTF8\<close>.
\<close>

theorem checkEncoding_overlong_UTF8: "checkEncoding [0xC0, 0x80] = UTF8"
  by code_simp

text \<open>
  C5, amended: a sequence cut short inside the stream disqualifies UTF-8 for the whole
  run.  Let the stream hold, anywhere, a leader \<open>l\<close>, then fewer continuation bytes
  \<open>ks\<close> than \<open>l\<close> requires, then a byte \<open>b\<close> that is no continuation byte; the one case
  set aside is the leader \<open>0xF0\<close> followed by exactly two continuation bytes.  Then
  \<open>validUTF8\<close> is clear once \<open>b\<close> has been read, it is clear at the end of the stream
  whatever follows, and the verdict is not \<open>UTF8\<close>.  Nothing is said of a sequence cut
  short by the end of the stream, nor of overlong encodings, which the code does not
  examine.
\<close>

theorem checkEncoding_truncated_not_UTF8:
  assumes k: "length ks < spec_trailers l"
    and ks: "list_all spec_continuation ks"
    and b: "\<not> spec_continuation b"
    and f0: "\<not> (l = 0xF0 \<and> length ks = 2)"
  shows "\<not> validUTF8 (scan init (pre @ l # ks @ [b])) \<and>
         \<not> validUTF8 (scan init (pre @ l # ks @ b # post)) \<and>
         checkEncoding (pre @ l # ks @ b # post) \<noteq> UTF8"
proof -
  define s1 where "s1 = loop_body (scan init pre) (uint l)"
  define s2 where "s2 = loop_body (scan s1 ks) (uint b)"
  have nb: "\<not> (0x80 \<le> b \<and> b \<le> 0xBF)" using b by (simp add: spec_continuation_def)
  have "\<not> validUTF8 s1 \<or> int (length ks) < utf8Length s1"
    unfolding s1_def using k f0 by (rule loop_body_leader)
  then have inv: "\<not> validUTF8 s2"
  proof
    assume "\<not> validUTF8 s1"
    then have "\<not> validUTF8 (scan s1 ks)" by (rule scan_validUTF8)
    then show ?thesis unfolding s2_def by (rule loop_body_validUTF8)
  next
    assume lt: "int (length ks) < utf8Length s1"
    with ks have "utf8Length (scan s1 ks) = utf8Length s1 - int (length ks)"
      by (rule scan_continuations)
    with lt have "utf8Length (scan s1 ks) \<noteq> 0" by simp
    then show ?thesis unfolding s2_def using nb by (rule loop_body_truncated)
  qed
  have e1: "scan init (pre @ l # ks @ [b]) = s2"
    by (simp add: scan_append s1_def s2_def)
  have e2: "scan init (pre @ l # ks @ b # post) = scan s2 post"
    by (simp add: scan_append s1_def s2_def)
  have "\<not> validUTF8 (scan s2 post)" using inv by (rule scan_validUTF8)
  with inv e1 e2 show ?thesis
    by (simp add: checkEncoding_def resolve_not_UTF8)
qed

theorem checkEncoding_truncated_not_UTF8_witness:
  "length [0x9F, 0x98 :: 8 word] < spec_trailers 0xF1 \<and>
   list_all spec_continuation [0x9F, 0x98] \<and>
   \<not> spec_continuation 0x41 \<and>
   \<not> ((0xF1 :: 8 word) = 0xF0 \<and> length [0x9F, 0x98 :: 8 word] = 2) \<and>
   \<not> validUTF8 (scan init ([0x48] @ 0xF1 # [0x9F, 0x98] @ [0x41])) \<and>
   \<not> validUTF8 (scan init ([0x48] @ 0xF1 # [0x9F, 0x98] @ 0x41 # [0xC3, 0xA9])) \<and>
   checkEncoding ([0x48] @ 0xF1 # [0x9F, 0x98] @ 0x41 # [0xC3, 0xA9]) \<noteq> UTF8"
proof -
  have h1: "length [0x9F, 0x98 :: 8 word] < spec_trailers 0xF1" by code_simp
  have h2: "list_all spec_continuation [0x9F, 0x98]" by code_simp
  have h3: "\<not> spec_continuation 0x41" by code_simp
  have h4: "\<not> ((0xF1 :: 8 word) = 0xF0 \<and> length [0x9F, 0x98 :: 8 word] = 2)" by simp
  show ?thesis
    using h1 h2 h3 h4 checkEncoding_truncated_not_UTF8 [OF h1 h2 h3 h4, of "[0x48]" "[0xC3, 0xA9]"] by simp
qed

text \<open>
  C6.  A stream of bytes below \<open>0x80\<close>, the empty stream among them, gives \<open>ASCII\<close>.
\<close>

theorem checkEncoding_ascii: "\<forall>b\<in>set cs. b < 0x80 \<Longrightarrow> checkEncoding cs = ASCII"
  by (simp add: checkEncoding_def scan_ascii init_def resolve_def)

theorem checkEncoding_ascii_witness:
  "(0x48 :: 8 word) < 0x80 \<and> (0x69 :: 8 word) < 0x80 \<and>
   checkEncoding [0x48, 0x69] = ASCII \<and> checkEncoding [] = ASCII"
proof -
  have h: "\<forall>b\<in>set [0x48, 0x69 :: 8 word]. b < 0x80" by simp
  have e: "\<forall>b\<in>set ([] :: 8 word list). b < 0x80" by simp
  show ?thesis
    using checkEncoding_ascii [OF h] checkEncoding_ascii [OF e] by simp
qed

text \<open>
  C7.  One pass of the loop body clears \<open>validLatin1\<close> exactly for the bytes \<open>0x80\<close> to
  \<open>0x9F\<close>; for every other byte, below \<open>0x80\<close> or from \<open>0xA0\<close> on, it leaves the flag as
  it was.
\<close>

theorem loop_body_validLatin1_C1_range:
  "validLatin1 (loop_body s (uint (b :: 8 word))) =
   (if 0x80 \<le> b \<and> b \<le> 0x9F then False else validLatin1 s)"
  by (simp add: loop_body_def Let_def byte_mask_ff byte_high_bit word_le_def word_less_def)

theorem loop_body_validLatin1_C1_range_witness:
  "\<not> validLatin1 (loop_body init (uint (0x85 :: 8 word))) \<and>
   validLatin1 (loop_body init (uint (0xE9 :: 8 word))) \<and>
   validLatin1 (loop_body init (uint (0x41 :: 8 word)))"
  using loop_body_validLatin1_C1_range [of init "0x85"]
    loop_body_validLatin1_C1_range [of init "0xE9"]
    loop_body_validLatin1_C1_range [of init "0x41"]
  by (simp add: init_def)

text \<open>
  C8.  \<open>validUTF8\<close> and \<open>validLatin1\<close> start set, and a flag that is clear after a prefix
  of the stream is clear after every longer prefix.
\<close>

theorem flags_monotone:
  "validUTF8 init \<and> validLatin1 init \<and>
   (\<not> validUTF8 (scan init pre) \<longrightarrow> \<not> validUTF8 (scan init (pre @ suf))) \<and>
   (\<not> validLatin1 (scan init pre) \<longrightarrow> \<not> validLatin1 (scan init (pre @ suf)))"
  by (simp add: init_def scan_append scan_validUTF8 scan_validLatin1)

theorem flags_monotone_witness:
  "validUTF8 init \<and> validLatin1 init \<and>
   \<not> validUTF8 (scan init [0x80]) \<and> \<not> validUTF8 (scan init ([0x80] @ [0xC3, 0xA9])) \<and>
   \<not> validLatin1 (scan init [0x80]) \<and> \<not> validLatin1 (scan init ([0x80] @ [0xC3, 0xA9]))"
proof -
  have h1: "\<not> validUTF8 (scan init [0x80])" by code_simp
  have h2: "\<not> validLatin1 (scan init [0x80])" by code_simp
  show ?thesis using h1 h2 flags_monotone [of "[0x80]" "[0xC3, 0xA9]"] by blast
qed

text \<open>
  C9.  The specification has the counter between 0 and 3 after every prefix of every
  stream: 0 outside a multi-byte sequence, 1 to 3 inside one.  The counter does stay
  between 0 and 3 (\<open>scan_init_range\<close>), but it is 0 inside a sequence in two cases:
  after the leader \<open>0xE2\<close>, which awaits two continuation bytes and which the mask of
  line 13 refuses, and after \<open>0xF0 0x9F 0x98\<close>, where the third continuation byte is
  awaited and the code, having matched \<open>0xF0\<close> on line 42, counted two.
\<close>

theorem utf8Length_zero_inside_sequence:
  "spec_inside_sequence [0xE2] \<and> utf8Length (scan init [0xE2]) = 0 \<and>
   spec_inside_sequence [0xF0, 0x9F, 0x98] \<and>
   utf8Length (scan init [0xF0, 0x9F, 0x98]) = 0"
  by code_simp

text \<open>
  C10.  After every prefix of every stream, if \<open>nonASCII\<close> is still clear then
  \<open>validUTF8\<close> and \<open>validLatin1\<close> are still set and the counter is 0; so the verdict
  \<open>ASCII\<close> is only printed from such a state.
\<close>

theorem nonASCII_clear_untouched:
  "(\<not> nonASCII (scan init (take n cs)) \<longrightarrow>
      validUTF8 (scan init (take n cs)) \<and> validLatin1 (scan init (take n cs)) \<and>
      utf8Length (scan init (take n cs)) = 0) \<and>
   (checkEncoding cs = ASCII \<longrightarrow>
      validUTF8 (scan init cs) \<and> validLatin1 (scan init cs) \<and>
      utf8Length (scan init cs) = 0)"
proof -
  have i: "pure_ascii init" by (simp add: pure_ascii_def init_def)
  have a: "pure_ascii (scan init (take n cs))" using i by (rule scan_pure)
  have b: "pure_ascii (scan init cs)" using i by (rule scan_pure)
  have c: "checkEncoding cs = ASCII \<longrightarrow> \<not> nonASCII (scan init cs)"
    by (simp add: checkEncoding_def resolve_def)
  show ?thesis using a b c by (auto simp add: pure_ascii_def)
qed

theorem nonASCII_clear_untouched_witness:
  "\<not> nonASCII (scan init (take 1 [0x48, 0xC3])) \<and>
   validUTF8 (scan init (take 1 [0x48, 0xC3])) \<and>
   validLatin1 (scan init (take 1 [0x48, 0xC3])) \<and>
   utf8Length (scan init (take 1 [0x48, 0xC3])) = 0 \<and>
   checkEncoding [0x48, 0x69] = ASCII \<and>
   validUTF8 (scan init [0x48, 0x69]) \<and>
   validLatin1 (scan init [0x48, 0x69]) \<and>
   utf8Length (scan init [0x48, 0x69]) = 0"
proof -
  have h1: "\<not> nonASCII (scan init (take 1 [0x48, 0xC3]))" by code_simp
  have h2: "checkEncoding [0x48, 0x69] = ASCII" by code_simp
  show ?thesis
    using h1 h2 nonASCII_clear_untouched [of 1 "[0x48, 0xC3]"]
      nonASCII_clear_untouched [of 2 "[0x48, 0x69]"]
    by blast
qed

end
